theory Spec2Isabelle
  imports Complex_Main "HOL-Library.Sublist"
begin

section \<open>The memory manager (src/lib/memory.ts)\<close>

subsection \<open>Values, failures and external calls\<close>

text \<open>
  A JavaScript \<^verbatim>\<open>number\<close> is only stored and passed on by this module, never computed
  with, so it is modelled by a real number. A \<^verbatim>\<open>UUID\<close> is a string.
\<close>

type_synonym number = real
type_synonym UUID = string

text \<open>
  What a rejected promise carries: an \<^verbatim>\<open>Error\<close> object with its message, or any other
  value a collaborator throws.
\<close>

datatype 'x exn = Error string | Thrown 'x

text \<open>
  An asynchronous call to an external collaborator (the embedder, the database adapter)
  is a function of the collaborator's world \<open>'w\<close>: it settles with a failure (\<open>Inl\<close>) or a
  value (\<open>Inr\<close>) and leaves a new world behind. Nothing is assumed about determinism
  beyond that: two calls from two worlds may answer differently.
\<close>

type_synonym ('w, 'x, 'a) promise = "'w \<Rightarrow> ('x exn + 'a) \<times> 'w"

subsection \<open>Data\<close>

text \<open>
  Modelled from the spec: the declarations of \<^verbatim>\<open>Content\<close>, \<^verbatim>\<open>Memory\<close> and
  \<^verbatim>\<open>SimilaritySearch\<close> (types.ts) are not among the sources. A content payload has a
  \<^verbatim>\<open>content\<close> text and an optional \<^verbatim>\<open>action\<close> tag; a memory has an identity, a content
  payload and an embedding that may be absent; a similarity match is a memory with its
  score. A field that may be \<^verbatim>\<open>undefined\<close> at run time is an option.
\<close>

record Content =
  content :: "string option"
  action :: "string option"

record Memory =
  memory_id :: UUID
  userId :: UUID
  memory_content :: Content
  embedding :: "number list option"

record SimilaritySearch =
  similar_memory :: Memory
  similarity :: number

text \<open>The constants of the module.\<close>

definition embeddingDimension :: nat where
  "embeddingDimension = 1536"

definition embeddingZeroVector :: "number list" where
  "embeddingZeroVector = replicate embeddingDimension 0"

definition defaultMatchThreshold :: number where
  "defaultMatchThreshold = 0.1"

definition defaultMatchCount :: number where
  "defaultMatchCount = 10"

text \<open>\<^verbatim>\<open>Array.prototype.slice()\<close> with no argument: a copy of the whole array.\<close>

definition slice :: "'a list \<Rightarrow> 'a list" where
  "slice xs = drop 0 xs"

text \<open>
  JavaScript truthiness, for the two kinds of value the module tests: a string that may
  be \<^verbatim>\<open>undefined\<close> (falsy when absent or empty) and an array that may be \<^verbatim>\<open>undefined\<close>
  (falsy only when absent: every array, also the empty one, is truthy).
\<close>

definition truthy_string :: "string option \<Rightarrow> bool" where
  "truthy_string v = (case v of None \<Rightarrow> False | Some t \<Rightarrow> t \<noteq> [])"

definition truthy_array :: "'a list option \<Rightarrow> bool" where
  "truthy_array v = (case v of None \<Rightarrow> False | Some _ \<Rightarrow> True)"

text \<open>\<^verbatim>\<open>!!unique\<close> on a boolean that may be \<^verbatim>\<open>undefined\<close>.\<close>

definition to_boolean :: "bool option \<Rightarrow> bool" where
  "to_boolean v = (case v of None \<Rightarrow> False | Some b \<Rightarrow> b)"

subsection \<open>The collaborators\<close>

text \<open>
  The parameter objects handed to the database adapter, one record per object literal of
  the source, with the source's property names (prefixed where two objects share one).
\<close>

record GetMemoriesByIdsParams =
  gm_userIds :: "UUID list"
  gm_count :: number
  gm_unique :: bool
  gm_tableName :: string

record GetMemoryByContentParams =
  query_table_name :: string
  query_threshold :: number
  query_input :: string
  query_field_name :: string
  query_field_sub_name :: string
  query_match_count :: number

record SearchMemoriesParams =
  sm_tableName :: string
  sm_userIds :: "UUID list"
  sm_embedding :: "number list"
  sm_match_threshold :: number
  sm_match_count :: number
  sm_unique :: bool

text \<open>
  The database adapter and the runtime are parameters: their code (runtime.ts and the
  adapters) is outside this module.
\<close>

record ('w, 'x) DatabaseAdapter =
  db_getMemoriesByIds :: "GetMemoriesByIdsParams \<Rightarrow> ('w, 'x, Memory list) promise"
  db_getMemoryByContent :: "GetMemoryByContentParams \<Rightarrow> ('w, 'x, SimilaritySearch list) promise"
  db_searchMemories :: "SearchMemoriesParams \<Rightarrow> ('w, 'x, Memory list) promise"
  db_createMemory :: "Memory \<Rightarrow> string \<Rightarrow> bool \<Rightarrow> ('w, 'x, unit) promise"
  db_removeMemory :: "UUID \<Rightarrow> string \<Rightarrow> ('w, 'x, unit) promise"
  db_removeAllMemoriesByUserIds :: "UUID list \<Rightarrow> string \<Rightarrow> ('w, 'x, unit) promise"
  db_countMemoriesByUserIds :: "UUID list \<Rightarrow> bool \<Rightarrow> string \<Rightarrow> ('w, 'x, number) promise"

record ('w, 'x) BgentRuntime =
  embed :: "string \<Rightarrow> ('w, 'x, number list) promise"
  databaseAdapter :: "('w, 'x) DatabaseAdapter"

record ('w, 'x) MemoryManager =
  runtime :: "('w, 'x) BgentRuntime"
  tableName :: string

text \<open>The constructor stores its two options.\<close>

definition new_MemoryManager :: "string \<Rightarrow> ('w, 'x) BgentRuntime \<Rightarrow> ('w, 'x) MemoryManager" where
  "new_MemoryManager tn rt = \<lparr>runtime = rt, tableName = tn\<rparr>"

subsection \<open>The options of the calls\<close>

record GetMemoriesByIdsOpts =
  ids_userIds :: "UUID list"
  ids_count :: "number option"
  ids_unique :: "bool option"

record SearchOpts =
  match_threshold :: "number option"
  count :: "number option"
  userIds :: "UUID list option"
  unique :: "bool option"

subsection \<open>State: the collaborators' world and the console\<close>

text \<open>What \<^verbatim>\<open>console.log\<close> is given: each call appends the list of its arguments.\<close>

datatype logged = LogString string | LogLength nat | LogOpts SearchOpts | LogUndefined

record 'w state =
  world :: 'w
  console :: "logged list list"

definition console_log :: "logged list \<Rightarrow> 'w state \<Rightarrow> 'w state" where
  "console_log args s = s\<lparr>console := console s @ [args]\<rparr>"

text \<open>\<^verbatim>\<open>await p\<close>: the call runs once on the world; its outcome is passed on as it is.\<close>

definition await :: "('w, 'x, 'a) promise \<Rightarrow> 'w state \<Rightarrow> ('x exn + 'a) \<times> 'w state" where
  "await p s = (case p (world s) of (r, w') \<Rightarrow> (r, s\<lparr>world := w'\<rparr>))"

subsection \<open>The operations\<close>

text \<open>
  \<^verbatim>\<open>addEmbeddingToMemory\<close> assigns to the \<^verbatim>\<open>embedding\<close> property of the object it is given
  and returns that object: the memory in the result is the object after the call. The
  source tests the content text twice, first to throw and then in the conditional
  expression that chooses between the embedder and a copy of the zero vector; both tests
  are kept. The inner \<open>case\<close> only hands the text, as a string, to the embedder.
\<close>

definition addEmbeddingToMemory ::
  "('w, 'x) MemoryManager \<Rightarrow> Memory \<Rightarrow> 'w state \<Rightarrow> ('x exn + Memory) \<times> 'w state" where
  "addEmbeddingToMemory this memory s =
    (if truthy_array (embedding memory) then (Inr memory, s)
     else
       let memoryText = content (memory_content memory) in
       if \<not> truthy_string memoryText then (Inl (Error ''Memory content is empty''), s)
       else
         (case (case memoryText of
                  Some t \<Rightarrow>
                    if truthy_string memoryText then await (embed (runtime this) t) s
                    else (Inr (slice embeddingZeroVector), s)
                | None \<Rightarrow> (Inr (slice embeddingZeroVector), s)) of
            (Inl e, s') \<Rightarrow> (Inl e, s')
          | (Inr v, s') \<Rightarrow> (Inr (memory\<lparr>embedding := Some v\<rparr>), s')))"

definition getMemoriesByIds ::
  "('w, 'x) MemoryManager \<Rightarrow> GetMemoriesByIdsOpts \<Rightarrow> 'w state \<Rightarrow> ('x exn + Memory list) \<times> 'w state" where
  "getMemoriesByIds this opts =
    (let userIds' = ids_userIds opts;
         count' = (case ids_count opts of None \<Rightarrow> 10 | Some c \<Rightarrow> c);
         unique' = (case ids_unique opts of None \<Rightarrow> True | Some u \<Rightarrow> u)
     in await (db_getMemoriesByIds (databaseAdapter (runtime this))
          \<lparr>gm_userIds = userIds', gm_count = count', gm_unique = unique',
           gm_tableName = tableName this\<rparr>))"

definition getMemoryByContent ::
  "('w, 'x) MemoryManager \<Rightarrow> string \<Rightarrow> 'w state \<Rightarrow> ('x exn + SimilaritySearch list) \<times> 'w state" where
  "getMemoryByContent this content' =
    await (db_getMemoryByContent (databaseAdapter (runtime this))
      \<lparr>query_table_name = tableName this,
       query_threshold = 2,
       query_input = content',
       query_field_name = ''content'',
       query_field_sub_name = ''content'',
       query_match_count = 10\<rparr>)"

text \<open>\<^verbatim>\<open>result[0]?.embedding?.length\<close>, as the last \<^verbatim>\<open>console.log\<close> prints it.\<close>

definition first_embedding_length :: "Memory list \<Rightarrow> logged" where
  "first_embedding_length result =
    (case result of
       [] \<Rightarrow> LogUndefined
     | m # _ \<Rightarrow> (case embedding m of None \<Rightarrow> LogUndefined | Some v \<Rightarrow> LogLength (length v)))"

definition searchMemoriesByEmbedding ::
  "('w, 'x) MemoryManager \<Rightarrow> number list \<Rightarrow> SearchOpts \<Rightarrow> 'w state \<Rightarrow> ('x exn + Memory list) \<times> 'w state" where
  "searchMemoriesByEmbedding this embedding' opts s =
    (let match_threshold' = (case match_threshold opts of None \<Rightarrow> defaultMatchThreshold | Some t \<Rightarrow> t);
         count' = (case count opts of None \<Rightarrow> defaultMatchCount | Some c \<Rightarrow> c);
         userIds' = (case userIds opts of None \<Rightarrow> [] | Some u \<Rightarrow> u);
         unique' = unique opts;
         s1 = console_log [LogString ''embedding length to search is'', LogLength (length embedding')] s;
         s2 = console_log [LogString ''opts are'', LogOpts opts] s1;
         s3 = console_log [LogOpts opts] s2
     in case await (db_searchMemories (databaseAdapter (runtime this))
               \<lparr>sm_tableName = tableName this,
                sm_userIds = userIds',
                sm_embedding = embedding',
                sm_match_threshold = match_threshold',
                sm_match_count = count',
                sm_unique = to_boolean unique'\<rparr>) s3 of
          (Inl e, s4) \<Rightarrow> (Inl e, s4)
        | (Inr result, s4) \<Rightarrow>
            (Inr result,
             console_log [LogString ''result.embedding.length'', first_embedding_length result] s4))"

definition createMemory ::
  "('w, 'x) MemoryManager \<Rightarrow> Memory \<Rightarrow> bool option \<Rightarrow> 'w state \<Rightarrow> ('x exn + unit) \<times> 'w state" where
  "createMemory this memory unique_arg =
    (let unique' = (case unique_arg of None \<Rightarrow> False | Some u \<Rightarrow> u)
     in await (db_createMemory (databaseAdapter (runtime this)) memory (tableName this) unique'))"

definition removeMemory ::
  "('w, 'x) MemoryManager \<Rightarrow> UUID \<Rightarrow> 'w state \<Rightarrow> ('x exn + unit) \<times> 'w state" where
  "removeMemory this memoryId =
    await (db_removeMemory (databaseAdapter (runtime this)) memoryId (tableName this))"

definition removeAllMemoriesByUserIds ::
  "('w, 'x) MemoryManager \<Rightarrow> UUID list \<Rightarrow> 'w state \<Rightarrow> ('x exn + unit) \<times> 'w state" where
  "removeAllMemoriesByUserIds this ids =
    await (db_removeAllMemoriesByUserIds (databaseAdapter (runtime this)) ids (tableName this))"

definition countMemoriesByUserIds ::
  "('w, 'x) MemoryManager \<Rightarrow> UUID list \<Rightarrow> bool option \<Rightarrow> 'w state \<Rightarrow> ('x exn + number) \<times> 'w state" where
  "countMemoriesByUserIds this ids unique_arg =
    (let unique' = (case unique_arg of None \<Rightarrow> True | Some u \<Rightarrow> u)
     in await (db_countMemoriesByUserIds (databaseAdapter (runtime this)) ids unique' (tableName this)))"

section \<open>The evaluator formatters (\<^verbatim>\<open>formatEvaluatorExamples\<close>)\<close>

subsection \<open>Data\<close>

text \<open>
  Modelled from the spec: the declarations of \<^verbatim>\<open>ActionExample\<close>, the evaluation example and
  \<^verbatim>\<open>Evaluator\<close> (types.ts) are not among the sources. A message has a speaker and a content
  payload; an example has a context, messages and an outcome; an evaluator has a name, a
  description, a condition and examples (its handler and validator are functions the
  formatters never read).
\<close>

record ActionExample =
  user :: string
  message_content :: Content

record EvaluationExample =
  "context" :: string
  messages :: "ActionExample list"
  outcome :: string

record Evaluator =
  name :: string
  description :: string
  condition :: string
  examples :: "EvaluationExample list"

subsection \<open>The string operations of the language\<close>

text \<open>
  \<^verbatim>\<open>String.prototype.replaceAll(searchValue, replaceValue)\<close> with two strings. The search
  string is taken literally; the replacement is a template in which \<^verbatim>\<open>$$\<close> stands for a
  dollar sign, \<^verbatim>\<open>$&\<close> for the matched text, \<^verbatim>\<open>$`\<close> for the text before the match and
  \<^verbatim>\<open>$'\<close> for the text after it. With a string as search value there are no captures, so
  every other use of \<^verbatim>\<open>$\<close> stands for itself. \<open>getSubstitution\<close> expands the template for
  one match.
\<close>

fun getSubstitution :: "string \<Rightarrow> string \<Rightarrow> string \<Rightarrow> string \<Rightarrow> string" where
  "getSubstitution matched preceding following [] = []"
| "getSubstitution matched preceding following [c] = [c]"
| "getSubstitution matched preceding following (c # d # t) =
     (if c = CHR ''$'' \<and> d = CHR ''$'' then CHR ''$'' # getSubstitution matched preceding following t
      else if c = CHR ''$'' \<and> d = CHR ''&'' then matched @ getSubstitution matched preceding following t
      else if c = CHR ''$'' \<and> d = CHR 0x60 then preceding @ getSubstitution matched preceding following t
      else if c = CHR ''$'' \<and> d = CHR 0x27 then following @ getSubstitution matched preceding following t
      else c # getSubstitution matched preceding following (d # t))"

text \<open>
  The matches are found from left to right and do not overlap: after a match the search
  goes on behind it (one position further when the search string is empty).
  \<open>preceding\<close> is the part of the original string before the current position.
\<close>

function replaceAll_from :: "string \<Rightarrow> string \<Rightarrow> string \<Rightarrow> string \<Rightarrow> string" where
  "replaceAll_from searchValue replaceValue preceding rest =
     (if prefix searchValue rest then
        getSubstitution searchValue preceding (drop (length searchValue) rest) replaceValue @
          (if searchValue = [] then
             (case rest of
                [] \<Rightarrow> []
              | c # cs \<Rightarrow> c # replaceAll_from searchValue replaceValue (preceding @ [c]) cs)
           else replaceAll_from searchValue replaceValue (preceding @ searchValue)
                  (drop (length searchValue) rest))
      else
        (case rest of
           [] \<Rightarrow> []
         | c # cs \<Rightarrow> c # replaceAll_from searchValue replaceValue (preceding @ [c]) cs))"
  by pat_completeness auto
termination
  by (relation "measure (\<lambda>(p, r, b, rest). length rest)") (auto simp: prefix_def)

declare replaceAll_from.simps [simp del]

definition replaceAll :: "string \<Rightarrow> string \<Rightarrow> string \<Rightarrow> string" where
  "replaceAll str searchValue replaceValue = replaceAll_from searchValue replaceValue [] str"

text \<open>\<^verbatim>\<open>Array.prototype.join(separator)\<close> on an array of strings.\<close>

fun join :: "string \<Rightarrow> string list \<Rightarrow> string" where
  "join sep [] = []"
| "join sep [x] = x"
| "join sep (x # y # ys) = x @ sep @ join sep (y # ys)"

text \<open>A natural number in a template literal: its decimal digits.\<close>

fun nat_to_string :: "nat \<Rightarrow> string" where
  "nat_to_string n =
     (if n < 10 then [''0123456789'' ! n]
      else nat_to_string (n div 10) @ [''0123456789'' ! (n mod 10)])"

declare nat_to_string.simps [simp del]

text \<open>A string that may be \<^verbatim>\<open>undefined\<close> in a template literal.\<close>

definition template_string :: "string option \<Rightarrow> string" where
  "template_string v = (case v of None \<Rightarrow> ''undefined'' | Some t \<Rightarrow> t)"

subsection \<open>The name generator\<close>

text \<open>
  \<^verbatim>\<open>uniqueNamesGenerator({ dictionaries: [names] })\<close> is an external, random source of names:
  a function of its own state \<open>'g\<close> that returns a name and the next state.
  \<^verbatim>\<open>Array.from({ length: n }, f)\<close> calls it \<open>n\<close> times, in index order.
\<close>

type_synonym 'g generator = "'g \<Rightarrow> string \<times> 'g"

fun array_from :: "nat \<Rightarrow> 'g generator \<Rightarrow> 'g \<Rightarrow> string list \<times> 'g" where
  "array_from 0 uniqueNamesGenerator g = ([], g)"
| "array_from (Suc n) uniqueNamesGenerator g =
     (case uniqueNamesGenerator g of
        (x, g1) \<Rightarrow>
          (case array_from n uniqueNamesGenerator g1 of (xs, g2) \<Rightarrow> (x # xs, g2)))"

subsection \<open>\<^verbatim>\<open>formatEvaluatorExamples\<close>\<close>

text \<open>The placeholder of the name at \<open>index\<close>: \<^verbatim>\<open>`{{user${index + 1}}}`\<close>.\<close>

definition placeholder :: "nat \<Rightarrow> string" where
  "placeholder index = ''{{user'' @ nat_to_string (index + 1) @ ''}}''"

text \<open>
  The first \<^verbatim>\<open>forEach\<close> over the names rewrites the context and the outcome together, the
  second one (inside the map over the messages) rewrites one message string. The
  argument \<open>index\<close> is the index of the first name of the list.
\<close>

fun forEach_replace2 :: "nat \<Rightarrow> string list \<Rightarrow> string \<times> string \<Rightarrow> string \<times> string" where
  "forEach_replace2 index [] (formattedContext, formattedOutcome) =
     (formattedContext, formattedOutcome)"
| "forEach_replace2 index (name' # names) (formattedContext, formattedOutcome) =
     forEach_replace2 (Suc index) names
       (replaceAll formattedContext (placeholder index) name',
        replaceAll formattedOutcome (placeholder index) name')"

fun forEach_replace :: "nat \<Rightarrow> string list \<Rightarrow> string \<Rightarrow> string" where
  "forEach_replace index [] messageString = messageString"
| "forEach_replace index (name' # names) messageString =
     forEach_replace (Suc index) names (replaceAll messageString (placeholder index) name')"

text \<open>The suffix \<^verbatim>\<open>(action)\<close> of a message that carries a (truthy) action tag.\<close>

definition action_suffix :: "ActionExample \<Rightarrow> string" where
  "action_suffix message =
     (if truthy_string (action (message_content message))
      then '' ('' @ template_string (action (message_content message)) @ '')''
      else [])"

definition formatMessage :: "string list \<Rightarrow> ActionExample \<Rightarrow> string" where
  "formatMessage exampleNames message =
     (let messageString = user message @ '': '' @ template_string (content (message_content message))
      in forEach_replace 0 exampleNames messageString @ action_suffix message)"

text \<open>The body of the map over the examples, once the five names are drawn.\<close>

definition formatExample :: "string list \<Rightarrow> EvaluationExample \<Rightarrow> string" where
  "formatExample exampleNames example =
     (case forEach_replace2 0 exampleNames (context example, outcome example) of
        (formattedContext, formattedOutcome) \<Rightarrow>
          let formattedMessages = join ''\<newline>'' (map (formatMessage exampleNames) (messages example))
          in ''Context:\<newline>'' @ formattedContext @ ''\<newline>\<newline>Messages:\<newline>'' @ formattedMessages
             @ ''\<newline>\<newline>Outcome:\<newline>'' @ formattedOutcome)"

text \<open>
  The two nested maps, with the generator's state passed along in evaluation order: the
  evaluators in order, the examples of each in order, five names drawn at the start of
  each example.
\<close>

fun map_examples :: "'g generator \<Rightarrow> EvaluationExample list \<Rightarrow> 'g \<Rightarrow> string list \<times> 'g" where
  "map_examples uniqueNamesGenerator [] g = ([], g)"
| "map_examples uniqueNamesGenerator (example # rest) g =
     (case array_from 5 uniqueNamesGenerator g of
        (exampleNames, g1) \<Rightarrow>
          (case map_examples uniqueNamesGenerator rest g1 of
             (ys, g2) \<Rightarrow> (formatExample exampleNames example # ys, g2)))"

fun map_evaluators :: "'g generator \<Rightarrow> Evaluator list \<Rightarrow> 'g \<Rightarrow> string list \<times> 'g" where
  "map_evaluators uniqueNamesGenerator [] g = ([], g)"
| "map_evaluators uniqueNamesGenerator (evaluator # rest) g =
     (case map_examples uniqueNamesGenerator (examples evaluator) g of
        (xs, g1) \<Rightarrow>
          (case map_evaluators uniqueNamesGenerator rest g1 of
             (ys, g2) \<Rightarrow> (join ''\<newline>\<newline>'' xs # ys, g2)))"

definition formatEvaluatorExamples :: "'g generator \<Rightarrow> Evaluator list \<Rightarrow> 'g \<Rightarrow> string \<times> 'g" where
  "formatEvaluatorExamples uniqueNamesGenerator evaluators g =
     (case map_evaluators uniqueNamesGenerator evaluators g of
        (ys, g1) \<Rightarrow> (join ''\<newline>\<newline>'' ys, g1))"

section \<open>Properties of the memory manager: vocabulary and test collaborators\<close>

text \<open>The error \<^verbatim>\<open>addEmbeddingToMemory\<close> raises itself, under the name the spec gives it.\<close>

definition EmptyContentError :: "'x exn" where
  "EmptyContentError = Error ''Memory content is empty''"

text \<open>
  An operation \<open>op\<close> passes the failures of the collaborator call \<open>call\<close> on unchanged when,
  from the state \<open>s\<close>: whenever the call rejects with \<open>e\<close>, the operation rejects with the
  same \<open>e\<close> and leaves the world the single call left (the call is not made again and
  nothing is recovered); and whenever the operation rejects, the call did, with that
  same value.
\<close>

definition propagates ::
  "('w, 'x, 'a) promise \<Rightarrow> ('w state \<Rightarrow> ('x exn + 'a) \<times> 'w state) \<Rightarrow> 'w state \<Rightarrow> bool" where
  "propagates call op s =
    ((\<forall>e w'. call (world s) = (Inl e, w') \<longrightarrow> fst (op s) = Inl e \<and> world (snd (op s)) = w') \<and>
     (\<forall>e. fst (op s) = Inl e \<longrightarrow>
        fst (call (world s)) = Inl e \<and> world (snd (op s)) = snd (call (world s))))"

text \<open>
  Modelled from the spec: the embedder (\<^verbatim>\<open>runtime.embed\<close>, runtime.ts) is not among the
  sources. Its contract is \<^verbatim>\<open>embed(text) -> float[D]\<close>: a vector it returns has length \<open>D\<close>.
  It may fail, and it need not be deterministic.
\<close>

definition embedder_contract :: "('w, 'x) BgentRuntime \<Rightarrow> bool" where
  "embedder_contract rt =
    (\<forall>t w v w'. embed rt t w = (Inr v, w') \<longrightarrow> length v = embeddingDimension)"

text \<open>
  The parameter object \<^verbatim>\<open>searchMemoriesByEmbedding\<close> is expected to hand to the adapter: the
  given vector, the options with their defaults, the uniqueness flag as a boolean and
  the table name of the manager.
\<close>

definition forwarded_search ::
  "('w, 'x) MemoryManager \<Rightarrow> number list \<Rightarrow> SearchOpts \<Rightarrow> SearchMemoriesParams" where
  "forwarded_search this e opts =
    \<lparr>sm_tableName = tableName this,
     sm_userIds = (case userIds opts of None \<Rightarrow> [] | Some u \<Rightarrow> u),
     sm_embedding = e,
     sm_match_threshold = (case match_threshold opts of None \<Rightarrow> 1 / 10 | Some t \<Rightarrow> t),
     sm_match_count = (case count opts of None \<Rightarrow> 10 | Some c \<Rightarrow> c),
     sm_unique = (unique opts = Some True)\<rparr>"

text \<open>
  Collaborators for concrete runs. Their world is the list of the calls they received, in
  order; every call is answered with a fixed value, or rejected when \<open>ok\<close> is false.
\<close>

datatype db_call =
    CallEmbed string
  | CallGetMemoriesByIds GetMemoriesByIdsParams
  | CallGetMemoryByContent GetMemoryByContentParams
  | CallSearchMemories SearchMemoriesParams
  | CallCreateMemory Memory string bool
  | CallRemoveMemory UUID string
  | CallRemoveAllMemoriesByUserIds "UUID list" string
  | CallCountMemoriesByUserIds "UUID list" bool string

definition answer :: "bool \<Rightarrow> 'a \<Rightarrow> db_call \<Rightarrow> (db_call list, unit, 'a) promise" where
  "answer ok v c w = (if ok then Inr v else Inl (Error ''database is down''), w @ [c])"

definition recording_adapter :: "bool \<Rightarrow> (db_call list, unit) DatabaseAdapter" where
  "recording_adapter ok =
    \<lparr>db_getMemoriesByIds = (\<lambda>p. answer ok [] (CallGetMemoriesByIds p)),
     db_getMemoryByContent = (\<lambda>p. answer ok [] (CallGetMemoryByContent p)),
     db_searchMemories = (\<lambda>p. answer ok [] (CallSearchMemories p)),
     db_createMemory = (\<lambda>m t u. answer ok () (CallCreateMemory m t u)),
     db_removeMemory = (\<lambda>i t. answer ok () (CallRemoveMemory i t)),
     db_removeAllMemoriesByUserIds = (\<lambda>us t. answer ok () (CallRemoveAllMemoriesByUserIds us t)),
     db_countMemoriesByUserIds = (\<lambda>us u t. answer ok 0 (CallCountMemoriesByUserIds us u t))\<rparr>"

definition recording_manager :: "bool \<Rightarrow> number list \<Rightarrow> (db_call list, unit) MemoryManager" where
  "recording_manager ok v =
    new_MemoryManager ''messages''
      \<lparr>embed = (\<lambda>t. answer ok v (CallEmbed t)), databaseAdapter = recording_adapter ok\<rparr>"

definition fresh_state :: "db_call list state" where
  "fresh_state = \<lparr>world = [], console = []\<rparr>"

definition memory_hello :: Memory where
  "memory_hello =
    \<lparr>memory_id = ''m1'', userId = ''u1'',
     memory_content = \<lparr>content = Some ''hello'', action = None\<rparr>,
     embedding = None\<rparr>"

definition memory_empty :: Memory where
  "memory_empty =
    \<lparr>memory_id = ''m2'', userId = ''u1'',
     memory_content = \<lparr>content = Some [], action = None\<rparr>,
     embedding = None\<rparr>"

section \<open>Properties of the example formatter: vocabulary and test data\<close>

text \<open>
  An example rendered with a given substitution: the same function is applied to the
  context, to the speaker-and-text string of every message and to the outcome.
\<close>

definition render_with :: "(string \<Rightarrow> string) \<Rightarrow> EvaluationExample \<Rightarrow> string" where
  "render_with substitute example =
     ''Context:\<newline>'' @ substitute (context example) @ ''\<newline>\<newline>Messages:\<newline>'' @
     join ''\<newline>''
       (map (\<lambda>m. substitute (user m @ '': '' @ template_string (content (message_content m)))
                  @ action_suffix m)
            (messages example)) @
     ''\<newline>\<newline>Outcome:\<newline>'' @ substitute (outcome example)"

text \<open>
  Replacing every occurrence of every placeholder in one pass over the text: at each
  position, the first binding whose placeholder starts there is replaced by its name
  and the pass goes on behind the placeholder; any other character is kept.
\<close>

fun substitute_all :: "(string \<times> string) list \<Rightarrow> string \<Rightarrow> string" where
  "substitute_all bindings [] = []"
| "substitute_all bindings (c # cs) =
     (case find (\<lambda>(p, n). prefix p (c # cs)) bindings of
        Some (p, n) \<Rightarrow> n @ substitute_all bindings (drop (length p - 1) cs)
      | None \<Rightarrow> c # substitute_all bindings cs)"

fun bindings_from :: "nat \<Rightarrow> string list \<Rightarrow> (string \<times> string) list" where
  "bindings_from index [] = []"
| "bindings_from index (name' # names) = (placeholder index, name') # bindings_from (Suc index) names"

text \<open>
  What is assumed of a generated name: it is not empty, it does not begin with a character
  that occurs in a placeholder, and it contains neither an opening brace nor a dollar
  sign (the character that is special in a replacement template).
\<close>

definition plain_name :: "string \<Rightarrow> bool" where
  "plain_name n =
     (case n of
        [] \<Rightarrow> False
      | c # cs \<Rightarrow> c \<notin> set ''{}user12345'' \<and> CHR ''{'' \<notin> set cs \<and> CHR ''$'' \<notin> set (c # cs))"

text \<open>
  The generator as a sequence: its state after \<open>k\<close> calls, the name its call number \<open>k\<close>
  returns (counted from 0), and the five names of the calls \<open>5j, \<dots>, 5j + 4\<close>.
\<close>

definition generator_state :: "'g generator \<Rightarrow> 'g \<Rightarrow> nat \<Rightarrow> 'g" where
  "generator_state gen g k = ((\<lambda>x. snd (gen x)) ^^ k) g"

definition generated_name :: "'g generator \<Rightarrow> 'g \<Rightarrow> nat \<Rightarrow> string" where
  "generated_name gen g k = fst (gen (generator_state gen g k))"

definition names_of_example :: "'g generator \<Rightarrow> 'g \<Rightarrow> nat \<Rightarrow> string list" where
  "names_of_example gen g j = map (generated_name gen g) [5 * j ..< 5 * j + 5]"

text \<open>
  The number, among all examples in order, of the first example of each evaluator.
\<close>

fun example_offsets :: "nat \<Rightarrow> Evaluator list \<Rightarrow> nat list" where
  "example_offsets j [] = []"
| "example_offsets j (evaluator # rest) = j # example_offsets (j + length (examples evaluator)) rest"

text \<open>Test data: names, a generator that walks through a roster, examples, evaluators.\<close>

definition names0 :: "string list" where
  "names0 = [''Alice'', ''Bob'', ''Carol'', ''Dave'', ''Erin'']"

definition example0 :: EvaluationExample where
  "example0 =
     \<lparr>context = ''{{user1}} and {{user2}} meet; {{user1}} knows {{user3}}'',
      messages =
        [\<lparr>user = ''{{user1}}'',
          message_content = \<lparr>content = Some ''Hi {{user2}}, {{user2}}!'', action = None\<rparr>\<rparr>,
         \<lparr>user = ''{{user2}}'',
          message_content = \<lparr>content = Some ''Hello {{user1}}'', action = Some ''WAIT''\<rparr>\<rparr>],
      outcome = ''{{user1}} greeted {{user2}}''\<rparr>"

definition roster :: "string list" where
  "roster = [''Alice'', ''Bob'', ''Carol'', ''Dave'', ''Erin'', ''Frank'', ''Grace'', ''Heidi'',
             ''Ivan'', ''Judy'', ''Kate'', ''Liam'', ''Mona'', ''Nils'', ''Olga'']"

definition roster_generator :: "nat generator" where
  "roster_generator n = (roster ! (n mod 15), Suc n)"

definition example1 :: EvaluationExample where
  "example1 = \<lparr>context = ''{{user1}} met {{user2}}'', messages = [], outcome = ''{{user1}}''\<rparr>"

definition evaluators0 :: "Evaluator list" where
  "evaluators0 =
     [\<lparr>name = ''summarization'', description = ''Sums up'', condition = ''always'',
       examples = [example1, example1]\<rparr>,
      \<lparr>name = ''goal'', description = ''Tracks goals'', condition = ''never'', examples = []\<rparr>,
      \<lparr>name = ''fact'', description = ''Keeps facts'', condition = ''often'', examples = [example1]\<rparr>]"

section \<open>The memory manager: theorems\<close>

lemma slice_id: "slice xs = xs"
  by (simp add: slice_def)

lemma await_propagates: "propagates call (await call) s"
  by (auto simp: propagates_def await_def split: prod.splits)

lemma answer_simps:
  "answer True v c w = (Inr v, w @ [c])"
  "answer False v c w = (Inl (Error ''database is down''), w @ [c])"
  by (simp_all add: answer_def)

lemma recording_manager_simps:
  "tableName (recording_manager ok v) = ''messages''"
  "embed (runtime (recording_manager ok v)) = (\<lambda>t. answer ok v (CallEmbed t))"
  "databaseAdapter (runtime (recording_manager ok v)) = recording_adapter ok"
  by (simp_all add: recording_manager_def new_MemoryManager_def)

subsection \<open>Attaching an embedding\<close>

text \<open>
  C1. A memory without an embedding and with a non-empty content text comes back with its
  embedding set to what the embedder returned for that text, every other field as it
  was, after exactly one call of the embedder; with an embedder that keeps its contract
  (vectors of length \<open>D\<close>), the attached embedding has length \<open>D = 1536\<close>. The operation
  performs no length check of its own.
\<close>

theorem addEmbeddingToMemory_attaches_embedder_output:
  assumes "embedder_contract (runtime this)"
    and "embedding memory = None"
    and "content (memory_content memory) = Some t" and "t \<noteq> []"
    and "embed (runtime this) t (world s) = (Inr v, w')"
  shows "addEmbeddingToMemory this memory s = (Inr (memory\<lparr>embedding := Some v\<rparr>), s\<lparr>world := w'\<rparr>)
       \<and> map_option length (embedding (memory\<lparr>embedding := Some v\<rparr>)) = Some 1536"
proof -
  from assms(1,5) have "length v = 1536"
    unfolding embedder_contract_def embeddingDimension_def by blast
  with assms(2-5) show ?thesis
    by (simp add: addEmbeddingToMemory_def truthy_array_def truthy_string_def await_def)
qed

theorem addEmbeddingToMemory_attaches_embedder_output_witness:
  "addEmbeddingToMemory (recording_manager True (replicate 1536 1)) memory_hello fresh_state
     = (Inr (memory_hello\<lparr>embedding := Some (replicate 1536 1)\<rparr>),
        \<lparr>world = [CallEmbed ''hello''], console = []\<rparr>)
   \<and> map_option length (embedding (memory_hello\<lparr>embedding := Some (replicate 1536 1)\<rparr>)) = Some 1536"
proof -
  have "embedder_contract (runtime (recording_manager True (replicate 1536 1)))"
    by (simp add: embedder_contract_def recording_manager_simps answer_simps embeddingDimension_def)
  from addEmbeddingToMemory_attaches_embedder_output
    [OF this, of memory_hello "''hello''" fresh_state "replicate 1536 1" "[CallEmbed ''hello'']"]
  show ?thesis
    by (simp add: memory_hello_def fresh_state_def recording_manager_simps answer_simps)
qed

text \<open>
  C2. A memory whose embedding is already set is returned as it is: the result is the
  input, no field has changed, and neither the collaborators nor the console were
  touched.
\<close>

theorem addEmbeddingToMemory_keeps_existing_embedding:
  "embedding memory = Some v \<Longrightarrow> addEmbeddingToMemory this memory s = (Inr memory, s)"
  by (simp add: addEmbeddingToMemory_def truthy_array_def)

theorem addEmbeddingToMemory_keeps_existing_embedding_witness:
  "addEmbeddingToMemory (recording_manager True [7]) (memory_hello\<lparr>embedding := Some []\<rparr>) fresh_state
     = (Inr (memory_hello\<lparr>embedding := Some []\<rparr>), fresh_state)"
  using addEmbeddingToMemory_keeps_existing_embedding
    [of "memory_hello\<lparr>embedding := Some []\<rparr>" "[]" "recording_manager True [7]" fresh_state]
  by simp

text \<open>
  C3. A memory with no embedding whose content text is absent or empty makes the call fail
  with the empty-content error, before any collaborator is called. Conversely, whenever
  the call fails, either it is this case, or the embedder was called on the non-empty
  text and the failure is the embedder's own.
\<close>

theorem addEmbeddingToMemory_empty_content:
  "(embedding memory = None \<and> content (memory_content memory) \<in> {None, Some []}
      \<longrightarrow> addEmbeddingToMemory this memory s = (Inl EmptyContentError, s)) \<and>
   (\<forall>e s'. addEmbeddingToMemory this memory s = (Inl e, s') \<longrightarrow>
      (embedding memory = None \<and> content (memory_content memory) \<in> {None, Some []}
         \<and> e = EmptyContentError \<and> s' = s) \<or>
      (\<exists>t. embedding memory = None \<and> content (memory_content memory) = Some t \<and> t \<noteq> []
         \<and> embed (runtime this) t (world s) = (Inl e, world s') \<and> s' = s\<lparr>world := world s'\<rparr>))"
  by (auto simp: addEmbeddingToMemory_def EmptyContentError_def truthy_array_def truthy_string_def
      await_def Let_def
      split: option.splits prod.splits sum.splits if_splits)

theorem addEmbeddingToMemory_empty_content_witness:
  "addEmbeddingToMemory (recording_manager True [7]) memory_empty fresh_state
     = (Inl (Error ''Memory content is empty''), fresh_state)
   \<and> addEmbeddingToMemory (recording_manager True [7])
        (memory_empty\<lparr>memory_content := \<lparr>content = None, action = None\<rparr>\<rparr>) fresh_state
     = (Inl (Error ''Memory content is empty''), fresh_state)"
  using addEmbeddingToMemory_empty_content
      [of memory_empty "recording_manager True [7]" fresh_state, THEN conjunct1]
    addEmbeddingToMemory_empty_content
      [of "memory_empty\<lparr>memory_content := \<lparr>content = None, action = None\<rparr>\<rparr>"
          "recording_manager True [7]" fresh_state, THEN conjunct1]
  by (simp add: memory_empty_def EmptyContentError_def)

text \<open>
  C9. The zero-vector branch of the assignment is dead code: on every input the operation
  behaves as the same operation without that branch. In particular, whenever an
  embedding is assigned, the content text is non-empty and the assigned value is what
  the embedder returned for it.
\<close>

theorem zero_vector_fallback_unreachable:
  "addEmbeddingToMemory this memory s =
     (case embedding memory of
        Some _ \<Rightarrow> (Inr memory, s)
      | None \<Rightarrow>
          (case content (memory_content memory) of
             None \<Rightarrow> (Inl EmptyContentError, s)
           | Some t \<Rightarrow>
               if t = [] then (Inl EmptyContentError, s)
               else (case embed (runtime this) t (world s) of
                       (Inl e, w') \<Rightarrow> (Inl e, s\<lparr>world := w'\<rparr>)
                     | (Inr v, w') \<Rightarrow> (Inr (memory\<lparr>embedding := Some v\<rparr>), s\<lparr>world := w'\<rparr>))))
   \<and> (\<forall>m' s'. embedding memory = None \<and> addEmbeddingToMemory this memory s = (Inr m', s') \<longrightarrow>
        (\<exists>t v. content (memory_content memory) = Some t \<and> t \<noteq> []
           \<and> embed (runtime this) t (world s) = (Inr v, world s')
           \<and> m' = memory\<lparr>embedding := Some v\<rparr>))"
  by (auto simp: addEmbeddingToMemory_def EmptyContentError_def truthy_array_def truthy_string_def
      await_def Let_def
      split: option.splits prod.splits sum.splits if_splits)

theorem zero_vector_fallback_unreachable_witness:
  "addEmbeddingToMemory (recording_manager True [1, 2, 3]) memory_hello fresh_state
     = (Inr (memory_hello\<lparr>embedding := Some [1, 2, 3]\<rparr>),
        \<lparr>world = [CallEmbed ''hello''], console = []\<rparr>)"
  using zero_vector_fallback_unreachable
    [of "recording_manager True [1, 2, 3]" memory_hello fresh_state, THEN conjunct1]
  by (simp add: memory_hello_def fresh_state_def recording_manager_simps answer_simps)

subsection \<open>Queries\<close>

lemma searchMemoriesByEmbedding_call:
  "fst (searchMemoriesByEmbedding this e opts s)
     = fst (db_searchMemories (databaseAdapter (runtime this)) (forwarded_search this e opts) (world s))"
  "world (snd (searchMemoriesByEmbedding this e opts s))
     = snd (db_searchMemories (databaseAdapter (runtime this)) (forwarded_search this e opts) (world s))"
  by (cases "unique opts";
      auto simp: searchMemoriesByEmbedding_def forwarded_search_def await_def Let_def
        console_log_def to_boolean_def defaultMatchThreshold_def defaultMatchCount_def
        split: option.splits prod.splits sum.splits)+

text \<open>
  C4. \<^verbatim>\<open>searchMemoriesByEmbedding\<close> calls the adapter's \<^verbatim>\<open>searchMemories\<close> once, with the given
  vector, the match threshold (0.1 when omitted), the count (10 when omitted), the user
  ids (empty when omitted), the uniqueness flag as a boolean and the table name of the
  manager; what the adapter answers, value or failure, is the result, and the world is
  the one that call left.
\<close>

theorem searchMemoriesByEmbedding_forwards:
  "fst (searchMemoriesByEmbedding this e opts s)
     = fst (db_searchMemories (databaseAdapter (runtime this))
              \<lparr>sm_tableName = tableName this,
               sm_userIds = (case userIds opts of None \<Rightarrow> [] | Some u \<Rightarrow> u),
               sm_embedding = e,
               sm_match_threshold = (case match_threshold opts of None \<Rightarrow> 1 / 10 | Some t \<Rightarrow> t),
               sm_match_count = (case count opts of None \<Rightarrow> 10 | Some c \<Rightarrow> c),
               sm_unique = (unique opts = Some True)\<rparr> (world s))
   \<and> world (snd (searchMemoriesByEmbedding this e opts s))
     = snd (db_searchMemories (databaseAdapter (runtime this))
              \<lparr>sm_tableName = tableName this,
               sm_userIds = (case userIds opts of None \<Rightarrow> [] | Some u \<Rightarrow> u),
               sm_embedding = e,
               sm_match_threshold = (case match_threshold opts of None \<Rightarrow> 1 / 10 | Some t \<Rightarrow> t),
               sm_match_count = (case count opts of None \<Rightarrow> 10 | Some c \<Rightarrow> c),
               sm_unique = (unique opts = Some True)\<rparr> (world s))"
  using searchMemoriesByEmbedding_call[of this e opts s]
  by (simp add: forwarded_search_def)

theorem searchMemoriesByEmbedding_forwards_witness:
  "fst (searchMemoriesByEmbedding (recording_manager True []) (replicate 1536 0)
          \<lparr>match_threshold = Some (1 / 10), count = Some 5, userIds = None, unique = None\<rparr>
          fresh_state) = Inr []
   \<and> world (snd (searchMemoriesByEmbedding (recording_manager True []) (replicate 1536 0)
          \<lparr>match_threshold = Some (1 / 10), count = Some 5, userIds = None, unique = None\<rparr>
          fresh_state))
     = [CallSearchMemories
          \<lparr>sm_tableName = ''messages'', sm_userIds = [], sm_embedding = replicate 1536 0,
           sm_match_threshold = 1 / 10, sm_match_count = 5, sm_unique = False\<rparr>]"
  using searchMemoriesByEmbedding_forwards
    [of "recording_manager True []" "replicate 1536 0"
        "\<lparr>match_threshold = Some (1 / 10), count = Some 5, userIds = None, unique = None\<rparr>"
        fresh_state]
  by (simp add: fresh_state_def recording_manager_simps recording_adapter_def answer_simps)

text \<open>
  C10. When the \<^verbatim>\<open>unique\<close> option is omitted, the adapter receives the boolean \<open>False\<close> for
  it (the parameter object's \<^verbatim>\<open>unique\<close> is a boolean in every call).
\<close>

theorem searchMemoriesByEmbedding_unique_omitted:
  assumes "unique opts = None"
  shows "fst (searchMemoriesByEmbedding this e opts s)
           = fst (db_searchMemories (databaseAdapter (runtime this))
                    ((forwarded_search this e opts)\<lparr>sm_unique := False\<rparr>) (world s))
       \<and> world (snd (searchMemoriesByEmbedding this e opts s))
           = snd (db_searchMemories (databaseAdapter (runtime this))
                    ((forwarded_search this e opts)\<lparr>sm_unique := False\<rparr>) (world s))"
proof -
  from assms have "(forwarded_search this e opts)\<lparr>sm_unique := False\<rparr> = forwarded_search this e opts"
    by (simp add: forwarded_search_def)
  then show ?thesis
    by (simp add: searchMemoriesByEmbedding_call)
qed

theorem searchMemoriesByEmbedding_unique_omitted_witness:
  "world (snd (searchMemoriesByEmbedding (recording_manager True []) [1, 2]
          \<lparr>match_threshold = None, count = None, userIds = Some [''u1''], unique = None\<rparr>
          fresh_state))
     = [CallSearchMemories
          \<lparr>sm_tableName = ''messages'', sm_userIds = [''u1''], sm_embedding = [1, 2],
           sm_match_threshold = 1 / 10, sm_match_count = 10, sm_unique = False\<rparr>]"
  using searchMemoriesByEmbedding_unique_omitted
    [of "\<lparr>match_threshold = None, count = None, userIds = Some [''u1''], unique = None\<rparr>"
        "recording_manager True []" "[1, 2]" fresh_state]
  by (simp add: fresh_state_def recording_manager_simps recording_adapter_def answer_simps
      forwarded_search_def)

text \<open>
  C5. \<^verbatim>\<open>getMemoryByContent\<close> makes one content-similarity query with threshold 2, match
  count 10, field \<^verbatim>\<open>content\<close>, sub-field \<^verbatim>\<open>content\<close>, the given text and the table name of
  the manager, and returns what the adapter answers.
\<close>

theorem getMemoryByContent_fixed_query:
  "getMemoryByContent this text s =
     (case db_getMemoryByContent (databaseAdapter (runtime this))
             \<lparr>query_table_name = tableName this,
              query_threshold = 2,
              query_input = text,
              query_field_name = ''content'',
              query_field_sub_name = ''content'',
              query_match_count = 10\<rparr> (world s) of
        (r, w') \<Rightarrow> (r, s\<lparr>world := w'\<rparr>))"
  by (simp add: getMemoryByContent_def await_def)

theorem getMemoryByContent_fixed_query_witness:
  "getMemoryByContent (recording_manager True []) ''weather'' fresh_state =
     (Inr [],
      \<lparr>world = [CallGetMemoryByContent
                  \<lparr>query_table_name = ''messages'', query_threshold = 2,
                   query_input = ''weather'', query_field_name = ''content'',
                   query_field_sub_name = ''content'', query_match_count = 10\<rparr>],
       console = []\<rparr>)"
  using getMemoryByContent_fixed_query[of "recording_manager True []" "''weather''" fresh_state]
  by (simp add: fresh_state_def recording_manager_simps recording_adapter_def answer_simps)

subsection \<open>Failures\<close>

lemma propagates_failure:
  "propagates call op s \<Longrightarrow> call (world s) = (Inl e, w')
     \<Longrightarrow> fst (op s) = Inl e \<and> world (snd (op s)) = w'"
  unfolding propagates_def by blast

lemma searchMemoriesByEmbedding_propagates:
  "propagates (db_searchMemories (databaseAdapter (runtime this)) (forwarded_search this e opts))
     (searchMemoriesByEmbedding this e opts) s"
  unfolding propagates_def
  by (simp add: searchMemoriesByEmbedding_call)

lemma getMemoriesByIds_propagates:
  "propagates
     (db_getMemoriesByIds (databaseAdapter (runtime this))
        \<lparr>gm_userIds = ids_userIds opts,
         gm_count = (case ids_count opts of None \<Rightarrow> 10 | Some c \<Rightarrow> c),
         gm_unique = (ids_unique opts \<noteq> Some False),
         gm_tableName = tableName this\<rparr>)
     (getMemoriesByIds this opts) s"
proof -
  have "(case ids_unique opts of None \<Rightarrow> True | Some u \<Rightarrow> u) = (ids_unique opts \<noteq> Some False)"
    by (cases "ids_unique opts") auto
  then show ?thesis
    by (simp add: getMemoriesByIds_def await_propagates)
qed

lemma createMemory_propagates:
  "propagates (db_createMemory (databaseAdapter (runtime this)) memory (tableName this) (u = Some True))
     (createMemory this memory u) s"
proof -
  have "(case u of None \<Rightarrow> False | Some b \<Rightarrow> b) = (u = Some True)"
    by (cases u) auto
  then show ?thesis
    by (simp add: createMemory_def await_propagates)
qed

lemma countMemoriesByUserIds_propagates:
  "propagates
     (db_countMemoriesByUserIds (databaseAdapter (runtime this)) ids (u \<noteq> Some False) (tableName this))
     (countMemoriesByUserIds this ids u) s"
proof -
  have "(case u of None \<Rightarrow> True | Some b \<Rightarrow> b) = (u \<noteq> Some False)"
    by (cases u) auto
  then show ?thesis
    by (simp add: countMemoriesByUserIds_def await_propagates)
qed

lemma addEmbeddingToMemory_embedder_failure:
  "embedding memory = None \<and> content (memory_content memory) = Some t \<and> t \<noteq> []
     \<and> embed (runtime this) t (world s) = (Inl e, w')
   \<longrightarrow> addEmbeddingToMemory this memory s = (Inl e, s\<lparr>world := w'\<rparr>)"
  by (simp add: addEmbeddingToMemory_def truthy_array_def truthy_string_def await_def)

lemma addEmbeddingToMemory_failure_cases:
  "addEmbeddingToMemory this memory s = (Inl e, s') \<longrightarrow>
     (e = EmptyContentError \<and> s' = s \<and> embedding memory = None
        \<and> \<not> truthy_string (content (memory_content memory))) \<or>
     (\<exists>t. embedding memory = None \<and> content (memory_content memory) = Some t \<and> t \<noteq> []
        \<and> embed (runtime this) t (world s) = (Inl e, world s'))"
  by (auto simp: addEmbeddingToMemory_def EmptyContentError_def truthy_array_def truthy_string_def
      await_def Let_def
      split: option.splits prod.splits sum.splits if_splits)

text \<open>
  C8. Each of the seven operations that delegate to the database adapter passes the
  adapter's failure on unchanged, after the single call it makes: it fails exactly when
  that call fails, with the same value. \<^verbatim>\<open>addEmbeddingToMemory\<close> passes a failure of the
  embedder on in the same way, and its only other failure is the empty-content error
  it raises itself.
\<close>

theorem operations_propagate_failures:
  "propagates
     (db_getMemoriesByIds (databaseAdapter (runtime this))
        \<lparr>gm_userIds = ids_userIds ids_opts,
         gm_count = (case ids_count ids_opts of None \<Rightarrow> 10 | Some c \<Rightarrow> c),
         gm_unique = (ids_unique ids_opts \<noteq> Some False),
         gm_tableName = tableName this\<rparr>)
     (getMemoriesByIds this ids_opts) s
   \<and> propagates
     (db_getMemoryByContent (databaseAdapter (runtime this))
        \<lparr>query_table_name = tableName this, query_threshold = 2, query_input = text,
         query_field_name = ''content'', query_field_sub_name = ''content'',
         query_match_count = 10\<rparr>)
     (getMemoryByContent this text) s
   \<and> propagates
     (db_searchMemories (databaseAdapter (runtime this)) (forwarded_search this e opts))
     (searchMemoriesByEmbedding this e opts) s
   \<and> propagates
     (db_createMemory (databaseAdapter (runtime this)) memory (tableName this) (u1 = Some True))
     (createMemory this memory u1) s
   \<and> propagates
     (db_removeMemory (databaseAdapter (runtime this)) memoryId (tableName this))
     (removeMemory this memoryId) s
   \<and> propagates
     (db_removeAllMemoriesByUserIds (databaseAdapter (runtime this)) ids (tableName this))
     (removeAllMemoriesByUserIds this ids) s
   \<and> propagates
     (db_countMemoriesByUserIds (databaseAdapter (runtime this)) ids (u2 \<noteq> Some False) (tableName this))
     (countMemoriesByUserIds this ids u2) s
   \<and> (\<forall>t err w'.
         embedding memory = None \<and> content (memory_content memory) = Some t \<and> t \<noteq> []
           \<and> embed (runtime this) t (world s) = (Inl err, w')
         \<longrightarrow> addEmbeddingToMemory this memory s = (Inl err, s\<lparr>world := w'\<rparr>))
   \<and> (\<forall>err s'.
         addEmbeddingToMemory this memory s = (Inl err, s') \<longrightarrow>
           (err = EmptyContentError \<and> s' = s \<and> embedding memory = None
              \<and> \<not> truthy_string (content (memory_content memory))) \<or>
           (\<exists>t. embedding memory = None \<and> content (memory_content memory) = Some t \<and> t \<noteq> []
              \<and> embed (runtime this) t (world s) = (Inl err, world s')))"
proof (intro conjI allI)
  show "propagates
     (db_getMemoryByContent (databaseAdapter (runtime this))
        \<lparr>query_table_name = tableName this, query_threshold = 2, query_input = text,
         query_field_name = ''content'', query_field_sub_name = ''content'',
         query_match_count = 10\<rparr>)
     (getMemoryByContent this text) s"
    by (simp add: getMemoryByContent_def await_propagates)
  show "propagates
     (db_removeMemory (databaseAdapter (runtime this)) memoryId (tableName this))
     (removeMemory this memoryId) s"
    by (simp add: removeMemory_def await_propagates)
  show "propagates
     (db_removeAllMemoriesByUserIds (databaseAdapter (runtime this)) ids (tableName this))
     (removeAllMemoriesByUserIds this ids) s"
    by (simp add: removeAllMemoriesByUserIds_def await_propagates)
qed (rule getMemoriesByIds_propagates searchMemoriesByEmbedding_propagates
      createMemory_propagates countMemoriesByUserIds_propagates
      addEmbeddingToMemory_embedder_failure addEmbeddingToMemory_failure_cases)+

theorem operations_propagate_failures_witness:
  "fst (removeMemory (recording_manager False []) ''m1'' fresh_state)
     = Inl (Error ''database is down'')
   \<and> world (snd (removeMemory (recording_manager False []) ''m1'' fresh_state))
     = [CallRemoveMemory ''m1'' ''messages'']
   \<and> fst (createMemory (recording_manager False []) memory_hello None fresh_state)
     = Inl (Error ''database is down'')
   \<and> world (snd (createMemory (recording_manager False []) memory_hello None fresh_state))
     = [CallCreateMemory memory_hello ''messages'' False]
   \<and> addEmbeddingToMemory (recording_manager False []) memory_hello fresh_state
     = (Inl (Error ''database is down''), \<lparr>world = [CallEmbed ''hello''], console = []\<rparr>)"
proof -
  note all = operations_propagate_failures
    [of "recording_manager False []" _ fresh_state _ _ _ memory_hello None "''m1''" _ _]
  have w: "world fresh_state = []"
    by (simp add: fresh_state_def)
  from propagates_failure[OF all[THEN conjunct2, THEN conjunct2, THEN conjunct2, THEN conjunct2, THEN conjunct1],
      of "Error ''database is down''" "[CallRemoveMemory ''m1'' ''messages'']"]
  have remove: "fst (removeMemory (recording_manager False []) ''m1'' fresh_state)
       = Inl (Error ''database is down'')
     \<and> world (snd (removeMemory (recording_manager False []) ''m1'' fresh_state))
       = [CallRemoveMemory ''m1'' ''messages'']"
    by (simp add: w recording_manager_simps recording_adapter_def answer_simps)
  from propagates_failure[OF all[THEN conjunct2, THEN conjunct2, THEN conjunct2, THEN conjunct1],
      of "Error ''database is down''" "[CallCreateMemory memory_hello ''messages'' False]"]
  have create: "fst (createMemory (recording_manager False []) memory_hello None fresh_state)
       = Inl (Error ''database is down'')
     \<and> world (snd (createMemory (recording_manager False []) memory_hello None fresh_state))
       = [CallCreateMemory memory_hello ''messages'' False]"
    by (simp add: w recording_manager_simps recording_adapter_def answer_simps)
  from all[THEN conjunct2, THEN conjunct2, THEN conjunct2, THEN conjunct2, THEN conjunct2, THEN conjunct2, THEN conjunct2, THEN conjunct1, rule_format,
      of "''hello''" "Error ''database is down''" "[CallEmbed ''hello'']"]
  have embed: "addEmbeddingToMemory (recording_manager False []) memory_hello fresh_state
     = (Inl (Error ''database is down''), \<lparr>world = [CallEmbed ''hello''], console = []\<rparr>)"
    by (simp add: w recording_manager_simps answer_simps memory_hello_def fresh_state_def)
  from remove create embed show ?thesis by blast
qed

section \<open>The example formatter: theorems\<close>

subsection \<open>String replacement\<close>

lemma getSubstitution_plain:
  "CHR ''$'' \<notin> set r \<Longrightarrow> getSubstitution m b a r = r"
  by (induction m b a r rule: getSubstitution.induct) auto

lemma replaceAll_from_Nil:
  "p \<noteq> [] \<Longrightarrow> replaceAll_from p r b [] = []"
  by (subst replaceAll_from.simps) simp

lemma replaceAll_from_skip:
  "\<not> prefix p (c # cs) \<Longrightarrow> replaceAll_from p r b (c # cs) = c # replaceAll_from p r (b @ [c]) cs"
  by (subst replaceAll_from.simps) simp

lemma replaceAll_from_match:
  "p \<noteq> [] \<Longrightarrow> CHR ''$'' \<notin> set r \<Longrightarrow>
   replaceAll_from p r b (p @ t) = r @ replaceAll_from p r (b @ p) t"
  by (subst replaceAll_from.simps) (simp add: getSubstitution_plain)

lemma replaceAll_from_pass:
  "p \<noteq> [] \<Longrightarrow> hd p \<notin> set u \<Longrightarrow>
   replaceAll_from p r b (u @ v) = u @ replaceAll_from p r (b @ u) v"
proof (induction u arbitrary: b)
  case Nil
  then show ?case by simp
next
  case (Cons x u)
  from Cons.prems have "\<not> prefix p (x # u @ v)"
    by (cases p) auto
  then have "replaceAll_from p r b (x # u @ v) = x # replaceAll_from p r (b @ [x]) (u @ v)"
    by (rule replaceAll_from_skip)
  with Cons show ?case by simp
qed

lemma replaceAll_from_absent:
  "p \<noteq> [] \<Longrightarrow> \<not> sublist p s \<Longrightarrow> replaceAll_from p r b s = s"
proof (induction s arbitrary: b)
  case Nil
  then show ?case by (simp add: replaceAll_from_Nil)
next
  case (Cons c cs)
  from Cons.prems have np: "\<not> prefix p (c # cs)"
    using prefix_imp_sublist by blast
  from Cons.prems have "\<not> sublist p cs"
    by (meson sublist_Cons_right)
  with Cons have "replaceAll_from p r (b @ [c]) cs = cs" by blast
  with np show ?case by (simp add: replaceAll_from_skip)
qed

subsection \<open>One pass over the template\<close>

lemma find_SomeD: "find P xs = Some x \<Longrightarrow> x \<in> set xs \<and> P x"
  by (induction xs) (auto split: if_splits)

lemma substitute_all_Nil_bindings: "substitute_all [] s = s"
  by (induction s) auto

lemma substitute_all_keep:
  "(\<And>u'. suffix u' u \<Longrightarrow> u' \<noteq> [] \<Longrightarrow> find (\<lambda>(p, n). prefix p (u' @ t)) B = None) \<Longrightarrow>
   substitute_all B (u @ t) = u @ substitute_all B t"
proof (induction u)
  case Nil
  then show ?case by simp
next
  case (Cons x u)
  have "find (\<lambda>(p, n). prefix p ((x # u) @ t)) B = None"
    by (rule Cons.prems) auto
  moreover have "substitute_all B (u @ t) = u @ substitute_all B t"
    by (rule Cons.IH) (auto intro: Cons.prems suffix_ConsI)
  ultimately show ?case by simp
qed

lemma substitute_all_prefix:
  assumes "\<And>q m. (q, m) \<in> set B \<Longrightarrow> m \<noteq> [] \<and> hd m \<notin> set p"
  shows "prefix p (substitute_all B s) \<Longrightarrow> prefix p s"
  using assms
proof (induction p arbitrary: s)
  case Nil
  then show ?case by simp
next
  case (Cons x p)
  show ?case
  proof (cases s)
    case Nil
    with Cons.prems show ?thesis by simp
  next
    case (Cons c cs)
    show ?thesis
    proof (cases "find (\<lambda>(p, n). prefix p (c # cs)) B")
      case None
      with Cons \<open>prefix (x # p) (substitute_all B s)\<close>
      have "x = c" and "prefix p (substitute_all B cs)" by auto
      moreover have "\<And>q m. (q, m) \<in> set B \<Longrightarrow> m \<noteq> [] \<and> hd m \<notin> set p"
        using Cons.prems(2) by fastforce
      ultimately show ?thesis using Cons.IH Cons by auto
    next
      case (Some qm)
      obtain q m where qm: "qm = (q, m)" by (cases qm)
      from Some qm have "(q, m) \<in> set B"
        by (auto dest: find_SomeD)
      then have m: "m \<noteq> []" "hd m \<noteq> x"
        using Cons.prems(2)[of q m] by auto
      from Some qm Cons have "substitute_all B s = m @ substitute_all B (drop (length q - 1) cs)"
        by simp
      with \<open>prefix (x # p) (substitute_all B s)\<close> m show ?thesis
        by (cases m) auto
    qed
  qed
qed

lemma find_app:
  "find P (xs @ ys) = (case find P xs of None \<Rightarrow> find P ys | Some x \<Rightarrow> Some x)"
  by (induction xs) auto

lemma replaceAll_after_pass:
  assumes p: "p \<noteq> []" and r: "CHR ''$'' \<notin> set r"
    and names: "\<And>q m. (q, m) \<in> set B \<Longrightarrow> m \<noteq> [] \<and> hd m \<notin> set p \<and> hd p \<notin> set m"
    and inner: "\<And>q m u' t. (q, m) \<in> set B \<Longrightarrow> suffix u' p \<Longrightarrow> u' \<noteq> [] \<Longrightarrow> u' \<noteq> p
                  \<Longrightarrow> \<not> prefix q (u' @ t)"
  shows "replaceAll_from p r b (substitute_all B s) = substitute_all (B @ [(p, r)]) s"
proof (induction "length s" arbitrary: s b rule: less_induct)
  case less
  show ?case
  proof (cases s)
    case Nil
    with p show ?thesis by (simp add: replaceAll_from_Nil)
  next
    case (Cons c cs)
    show ?thesis
    proof (cases "find (\<lambda>(p, n). prefix p (c # cs)) B")
      case (Some qm)
      obtain q m where qm: "qm = (q, m)" by (cases qm)
      from Some qm have mem: "(q, m) \<in> set B" by (auto dest: find_SomeD)
      define rest where "rest = drop (length q - 1) cs"
      have short: "length rest < length s" by (simp add: rest_def Cons)
      have lhs: "substitute_all B s = m @ substitute_all B rest"
        using Some qm Cons by (simp add: rest_def)
      have rhs: "substitute_all (B @ [(p, r)]) s = m @ substitute_all (B @ [(p, r)]) rest"
        using Some qm Cons by (simp add: rest_def find_app)
      have "replaceAll_from p r b (m @ substitute_all B rest)
              = m @ replaceAll_from p r (b @ m) (substitute_all B rest)"
        using p names[OF mem] by (simp add: replaceAll_from_pass)
      also have "replaceAll_from p r (b @ m) (substitute_all B rest) = substitute_all (B @ [(p, r)]) rest"
        using short by (rule less)
      finally show ?thesis by (simp add: lhs rhs)
    next
      case None
      show ?thesis
      proof (cases "prefix p (c # cs)")
        case True
        then obtain t where t: "c # cs = p @ t" by (auto simp: prefix_def)
        have short: "length t < length s" using p t Cons by (cases p) auto
        have "substitute_all B (p @ t) = p @ substitute_all B t"
        proof (rule substitute_all_keep)
          fix u' assume u': "suffix u' p" "u' \<noteq> []"
          show "find (\<lambda>(p, n). prefix p (u' @ t)) B = None"
          proof (cases "u' = p")
            case True
            with None t show ?thesis by simp
          next
            case False
            with u' inner show ?thesis by (auto simp: find_None_iff)
          qed
        qed
        then have lhs: "substitute_all B s = p @ substitute_all B t"
          using t Cons by simp
        have "drop (length p - 1) cs = t"
          using t p by (cases p) auto
        then have rhs: "substitute_all (B @ [(p, r)]) s = r @ substitute_all (B @ [(p, r)]) t"
          using None True Cons by (simp add: find_app)
        have "replaceAll_from p r b (p @ substitute_all B t)
                = r @ replaceAll_from p r (b @ p) (substitute_all B t)"
          using p r by (rule replaceAll_from_match)
        also have "replaceAll_from p r (b @ p) (substitute_all B t) = substitute_all (B @ [(p, r)]) t"
          using short by (rule less)
        finally show ?thesis by (simp add: lhs rhs)
      next
        case False
        have lhs: "substitute_all B s = c # substitute_all B cs"
          using None Cons by simp
        have rhs: "substitute_all (B @ [(p, r)]) s = c # substitute_all (B @ [(p, r)]) cs"
          using None False Cons by (simp add: find_app)
        have "\<not> prefix p (substitute_all B s)"
        proof
          assume "prefix p (substitute_all B s)"
          moreover have "\<And>q m. (q, m) \<in> set B \<Longrightarrow> m \<noteq> [] \<and> hd m \<notin> set p"
            using names by blast
          ultimately have "prefix p s" by (rule substitute_all_prefix[rotated])
          with False Cons show False by simp
        qed
        then have "replaceAll_from p r b (c # substitute_all B cs)
                = c # replaceAll_from p r (b @ [c]) (substitute_all B cs)"
          unfolding lhs by (rule replaceAll_from_skip)
        also have "replaceAll_from p r (b @ [c]) (substitute_all B cs) = substitute_all (B @ [(p, r)]) cs"
          by (rule less) (simp add: Cons)
        finally show ?thesis by (simp add: lhs rhs)
      qed
    qed
  qed
qed

subsection \<open>The placeholders\<close>

lemma nat_to_string_digit: "n < 10 \<Longrightarrow> nat_to_string n = [''0123456789'' ! n]"
  by (subst nat_to_string.simps) simp

lemma placeholder_shape:
  assumes "k < 5"
  shows "\<exists>d. d \<in> set ''12345'' \<and>
           placeholder k = [CHR ''{'', CHR ''{'', CHR ''u'', CHR ''s'', CHR ''e'', CHR ''r'', d, CHR ''}'', CHR ''}'']"
proof -
  have p: "placeholder k = ''{{user'' @ [''0123456789'' ! (k + 1)] @ ''}}''"
    using assms by (simp add: placeholder_def nat_to_string_digit)
  from assms have "k = 0 \<or> k = 1 \<or> k = 2 \<or> k = 3 \<or> k = 4" by arith
  then have "''0123456789'' ! (k + 1) \<in> set ''12345''"
    by (elim disjE) simp_all
  with p show ?thesis by simp
qed

lemma placeholder_nonempty: "placeholder k \<noteq> []"
  by (simp add: placeholder_def)

lemma placeholder_hd: "hd (placeholder k) = CHR ''{''"
  by (simp add: placeholder_def)

lemma placeholder_chars: "k < 5 \<Longrightarrow> set (placeholder k) \<subseteq> set ''{}user12345''"
  using placeholder_shape[of k] by auto

lemma placeholder_no_overlap:
  assumes "i < 5" "k < 5" "suffix u' (placeholder i)" "u' \<noteq> []" "u' \<noteq> placeholder i"
  shows "\<not> prefix (placeholder k) (u' @ t)"
proof -
  from placeholder_shape[OF assms(1)] obtain d where
    d: "d \<in> set ''12345''"
       "placeholder i = [CHR ''{'', CHR ''{'', CHR ''u'', CHR ''s'', CHR ''e'', CHR ''r'', d, CHR ''}'', CHR ''}'']"
    by blast
  from placeholder_shape[OF assms(2)] obtain e where
    e: "placeholder k = [CHR ''{'', CHR ''{'', CHR ''u'', CHR ''s'', CHR ''e'', CHR ''r'', e, CHR ''}'', CHR ''}'']"
    by blast
  from assms(3,4,5) d show ?thesis
    unfolding e d(2) by (auto simp: suffix_Cons)
qed

lemma plain_nameD:
  "plain_name m \<Longrightarrow> m \<noteq> [] \<and> hd m \<notin> set ''{}user12345'' \<and> CHR ''{'' \<notin> set m \<and> CHR ''$'' \<notin> set m"
  by (cases m) (auto simp: plain_name_def)

subsection \<open>The loop over the names\<close>

lemma forEach_replace_substitute:
  assumes "i + length ns \<le> 5" and "list_all plain_name ns"
    and "\<And>q m. (q, m) \<in> set B \<Longrightarrow> (\<exists>k<5. q = placeholder k) \<and> plain_name m"
  shows "forEach_replace i ns (substitute_all B s) = substitute_all (B @ bindings_from i ns) s"
  using assms
proof (induction ns arbitrary: i B)
  case Nil
  then show ?case by simp
next
  case (Cons n ns)
  from Cons.prems have i: "i < 5" and n: "plain_name n" by auto
  have step: "replaceAll (substitute_all B s) (placeholder i) n = substitute_all (B @ [(placeholder i, n)]) s"
    unfolding replaceAll_def
  proof (rule replaceAll_after_pass)
    show "placeholder i \<noteq> []" by (rule placeholder_nonempty)
    show "CHR ''$'' \<notin> set n" using plain_nameD[OF n] by simp
  next
    fix q m assume "(q, m) \<in> set B"
    then have "plain_name m" using Cons.prems(3) by blast
    from plain_nameD[OF this] placeholder_chars[OF i]
    show "m \<noteq> [] \<and> hd m \<notin> set (placeholder i) \<and> hd (placeholder i) \<notin> set m"
      by (auto simp: placeholder_hd)
  next
    fix q m u' t
    assume "(q, m) \<in> set B" "suffix u' (placeholder i)" "u' \<noteq> []" "u' \<noteq> placeholder i"
    moreover from this(1) obtain k where "k < 5" "q = placeholder k"
      using Cons.prems(3) by blast
    ultimately show "\<not> prefix q (u' @ t)"
      using placeholder_no_overlap[OF i] by blast
  qed
  have "forEach_replace (Suc i) ns (substitute_all (B @ [(placeholder i, n)]) s)
          = substitute_all ((B @ [(placeholder i, n)]) @ bindings_from (Suc i) ns) s"
  proof (rule Cons.IH)
    show "Suc i + length ns \<le> 5" using Cons.prems(1) by simp
    show "list_all plain_name ns" using Cons.prems(2) by simp
  next
    fix q m assume "(q, m) \<in> set (B @ [(placeholder i, n)])"
    then show "(\<exists>k<5. q = placeholder k) \<and> plain_name m"
      using Cons.prems(3) i n by auto
  qed
  with step show ?case by simp
qed

lemma forEach_replace_simultaneous:
  assumes "length ns \<le> 5" and "list_all plain_name ns"
  shows "forEach_replace 0 ns s = substitute_all (bindings_from 0 ns) s"
  using forEach_replace_substitute[of 0 ns "[]" s] assms
  by (simp add: substitute_all_Nil_bindings)

lemma forEach_replace2_pair:
  "forEach_replace2 i ns (a, b) = (forEach_replace i ns a, forEach_replace i ns b)"
  by (induction ns arbitrary: i a b) auto

lemma formatExample_render:
  "formatExample ns ex = render_with (forEach_replace 0 ns) ex"
proof -
  have "formatMessage ns = (\<lambda>m. forEach_replace 0 ns
          (user m @ '': '' @ template_string (content (message_content m))) @ action_suffix m)"
    by (rule ext) (simp add: formatMessage_def)
  then show ?thesis
    by (simp add: formatExample_def render_with_def forEach_replace2_pair)
qed

subsection \<open>Every occurrence, and nothing else\<close>

lemma placeholder_length: "k < 5 \<Longrightarrow> length (placeholder k) = 9"
  using placeholder_shape[of k] by auto

lemma placeholder_inj:
  assumes "j < 5" "k < 5" "placeholder j = placeholder k"
  shows "j = k"
proof -
  have "''0123456789'' ! (j + 1) = ''0123456789'' ! (k + 1)"
    using assms by (simp add: placeholder_def nat_to_string_digit)
  moreover from assms have "j = 0 \<or> j = 1 \<or> j = 2 \<or> j = 3 \<or> j = 4" by arith
  moreover from assms have "k = 0 \<or> k = 1 \<or> k = 2 \<or> k = 3 \<or> k = 4" by arith
  ultimately show ?thesis
    by (elim disjE) simp_all
qed

lemma prefix_same_length: "prefix xs (ys @ zs) \<Longrightarrow> length xs = length ys \<Longrightarrow> xs = ys"
  by (auto simp: prefix_def append_eq_append_conv)

lemma placeholder_prefix_iff:
  assumes "j < 5" "k < 5"
  shows "prefix (placeholder j) (placeholder k @ b) \<longleftrightarrow> j = k"
proof
  assume "prefix (placeholder j) (placeholder k @ b)"
  then have "placeholder j = placeholder k"
    using assms by (intro prefix_same_length) (simp_all add: placeholder_length)
  with assms show "j = k" by (rule placeholder_inj)
qed simp

lemma bindings_from_mem:
  "(p, n) \<in> set (bindings_from i ns) \<Longrightarrow> \<exists>j. i \<le> j \<and> j < i + length ns \<and> p = placeholder j"
proof (induction ns arbitrary: i)
  case Nil
  then show ?case by simp
next
  case (Cons m ns)
  show ?case
  proof (cases "(p, n) = (placeholder i, m)")
    case True
    then show ?thesis by auto
  next
    case False
    with Cons.prems have "(p, n) \<in> set (bindings_from (Suc i) ns)" by auto
    from Cons.IH[OF this] obtain j where "Suc i \<le> j" "j < Suc i + length ns" "p = placeholder j"
      by blast
    then have "i \<le> j \<and> j < i + length (m # ns) \<and> p = placeholder j" by simp
    then show ?thesis by blast
  qed
qed

lemma find_placeholder:
  assumes "k < 5" "i + length ns \<le> 5"
  shows "find (\<lambda>(p, n). prefix p (placeholder k @ b)) (bindings_from i ns)
           = (if i \<le> k \<and> k < i + length ns then Some (placeholder k, ns ! (k - i)) else None)"
  using assms
proof (induction ns arbitrary: i)
  case Nil
  then show ?case by simp
next
  case (Cons m ns)
  from Cons.prems have i: "i < 5" by simp
  show ?case
  proof (cases "i = k")
    case True
    then show ?thesis by simp
  next
    case False
    with i Cons.prems have "\<not> prefix (placeholder i) (placeholder k @ b)"
      by (simp add: placeholder_prefix_iff)
    moreover have "find (\<lambda>(p, n). prefix p (placeholder k @ b)) (bindings_from (Suc i) ns)
           = (if Suc i \<le> k \<and> k < Suc i + length ns then Some (placeholder k, ns ! (k - Suc i)) else None)"
      using Cons.prems by (intro Cons.IH) simp_all
    ultimately show ?thesis using False by (auto simp: Suc_diff_le)
  qed
qed

lemma placeholder_not_across:
  assumes "j < 5" "k < 5" "a \<noteq> []" "prefix (placeholder j) (a @ placeholder k @ b)"
  shows "prefix (placeholder j) a"
proof (rule ccontr)
  assume not: "\<not> prefix (placeholder j) a"
  with assms(4) obtain us where us: "placeholder j = a @ us" "prefix us (placeholder k @ b)"
    by (auto simp: prefix_append)
  from us(1) not have "us \<noteq> []" by auto
  from us(1) assms(3) have "us \<noteq> placeholder j" by auto
  from us(1) have suf: "suffix us (placeholder j)" by (simp add: suffix_def)
  from us(1) assms(1,2,3) have "length us < length (placeholder k)"
    by (metis add_less_cancel_right length_append length_greater_0_conv less_add_same_cancel2
        placeholder_length)
  with us(2) have "prefix us (placeholder k)"
    by (auto simp: prefix_append)
  then obtain t where "placeholder k = us @ t" by (auto simp: prefix_def)
  then have "prefix (placeholder k) (us @ t)" by simp
  with placeholder_no_overlap[OF assms(1,2) suf \<open>us \<noteq> []\<close> \<open>us \<noteq> placeholder j\<close>]
  show False by blast
qed

lemma substitute_all_placeholder:
  assumes "length names = 5" "k < 5"
  shows "substitute_all (bindings_from 0 names) (a @ placeholder k @ b)
           = substitute_all (bindings_from 0 names) a @ names ! k
               @ substitute_all (bindings_from 0 names) b"
proof (induction "length a" arbitrary: a rule: less_induct)
  case less
  let ?B = "bindings_from 0 names"
  show ?case
  proof (cases a)
    case Nil
    obtain c cs where p: "placeholder k = c # cs"
      using placeholder_nonempty[of k] by (cases "placeholder k") auto
    have "find (\<lambda>(p, n). prefix p (c # cs @ b)) ?B = Some (c # cs, names ! k)"
      using find_placeholder[of k 0 names b] assms by (simp add: p)
    then show ?thesis using Nil p by simp
  next
    case (Cons c a')
    have same: "find (\<lambda>(p, n). prefix p (c # a' @ placeholder k @ b)) ?B
                  = find (\<lambda>(p, n). prefix p (c # a')) ?B"
    proof (rule find_cong[OF refl])
      fix x assume x: "x \<in> set ?B"
      obtain p n where pn: "x = (p, n)" by (cases x)
      from x pn bindings_from_mem[of p n 0 names] assms(1)
      obtain j where j: "j < 5" "p = placeholder j" by auto
      have "prefix p (c # a' @ placeholder k @ b) \<longleftrightarrow> prefix p (c # a')"
      proof
        assume "prefix p (c # a' @ placeholder k @ b)"
        then show "prefix p (c # a')"
          using placeholder_not_across[OF j(1) assms(2), of "c # a'" b] j(2) by simp
      next
        assume "prefix p (c # a')"
        then have "prefix p ((c # a') @ placeholder k @ b)" by (rule prefix_prefix)
        then show "prefix p (c # a' @ placeholder k @ b)" by simp
      qed
      then show "(case x of (p, n) \<Rightarrow> prefix p (c # a' @ placeholder k @ b))
                   = (case x of (p, n) \<Rightarrow> prefix p (c # a'))"
        by (simp add: pn)
    qed
    show ?thesis
    proof (cases "find (\<lambda>(p, n). prefix p (c # a')) ?B")
      case None
      have "substitute_all ?B (a' @ placeholder k @ b)
              = substitute_all ?B a' @ names ! k @ substitute_all ?B b"
        by (rule less) (simp add: Cons)
      with None same show ?thesis by (simp add: Cons)
    next
      case (Some pn)
      obtain p n where pn: "pn = (p, n)" by (cases pn)
      from Some pn have "prefix p (c # a')" by (auto dest: find_SomeD)
      then obtain a'' where a'': "c # a' = p @ a''" by (auto simp: prefix_def)
      from Some pn bindings_from_mem[of p n 0 names]
      obtain j where "p = placeholder j" by (auto dest!: find_SomeD)
      then have "p \<noteq> []" by (simp add: placeholder_nonempty)
      with a'' have d1: "drop (length p - 1) a' = a''"
        by (cases p) auto
      from a'' \<open>p \<noteq> []\<close> have d2: "drop (length p - 1) (a' @ placeholder k @ b) = a'' @ placeholder k @ b"
        by (cases p) auto
      have "length a'' < length a"
        using a'' \<open>p \<noteq> []\<close> Cons by (cases p) auto
      then have "substitute_all ?B (a'' @ placeholder k @ b)
              = substitute_all ?B a'' @ names ! k @ substitute_all ?B b"
        by (rule less)
      with Some same pn d1 d2 show ?thesis by (simp add: Cons)
    qed
  qed
qed

lemma substitute_all_absent:
  assumes "\<And>p n. (p, n) \<in> set B \<Longrightarrow> \<not> sublist p s"
  shows "substitute_all B s = s"
  using assms
proof (induction s)
  case Nil
  then show ?case by simp
next
  case (Cons c cs)
  have "find (\<lambda>(p, n). prefix p (c # cs)) B = None"
    using Cons.prems by (auto simp: find_None_iff dest: prefix_imp_sublist)
  moreover have "substitute_all B cs = cs"
  proof (rule Cons.IH)
    fix p n assume "(p, n) \<in> set B"
    then have "\<not> sublist p (c # cs)" by (rule Cons.prems)
    then show "\<not> sublist p cs" by (meson sublist_Cons_right)
  qed
  ultimately show ?case by simp
qed

lemma forEach_replace_absent:
  "(\<And>k. i \<le> k \<Longrightarrow> k < i + length ns \<Longrightarrow> \<not> sublist (placeholder k) s)
     \<Longrightarrow> forEach_replace i ns s = s"
proof (induction ns arbitrary: i)
  case Nil
  then show ?case by simp
next
  case (Cons n ns)
  have "\<not> sublist (placeholder i) s" by (rule Cons.prems) simp_all
  then have "replaceAll s (placeholder i) n = s"
    by (simp add: replaceAll_def replaceAll_from_absent placeholder_nonempty)
  moreover have "forEach_replace (Suc i) ns s = s"
    by (rule Cons.IH) (simp_all add: Cons.prems)
  ultimately show ?case by simp
qed

subsection \<open>The names of the examples\<close>

lemma generator_state_Suc:
  "snd (gen (generator_state gen g k)) = generator_state gen g (Suc k)"
  by (simp add: generator_state_def)

lemma array_from_generated:
  "array_from n gen (generator_state gen g k)
     = (map (generated_name gen g) [k ..< k + n], generator_state gen g (k + n))"
proof (induction n arbitrary: k)
  case 0
  then show ?case by simp
next
  case (Suc n)
  obtain x g1 where g1: "gen (generator_state gen g k) = (x, g1)"
    by (cases "gen (generator_state gen g k)")
  then have x: "x = generated_name gen g k" and s: "g1 = generator_state gen g (Suc k)"
    using generator_state_Suc[of gen g k] by (simp_all add: generated_name_def)
  have "[k ..< k + Suc n] = k # [Suc k ..< Suc k + n]"
    by (simp add: upt_conv_Cons)
  with Suc[of "Suc k"] g1 x s show ?case by simp
qed

lemma map_examples_generated:
  "map_examples gen exs (generator_state gen g (5 * j))
     = (map (\<lambda>(i, ex). formatExample (names_of_example gen g i) ex) (enumerate j exs),
        generator_state gen g (5 * (j + length exs)))"
proof (induction exs arbitrary: j)
  case Nil
  then show ?case by simp
next
  case (Cons ex exs)
  have "array_from 5 gen (generator_state gen g (5 * j))
          = (names_of_example gen g j, generator_state gen g (5 * Suc j))"
    by (simp add: array_from_generated names_of_example_def add.commute)
  with Cons[of "Suc j"] show ?case by simp
qed

lemma map_evaluators_generated:
  "map_evaluators gen evs (generator_state gen g (5 * j))
     = (map (\<lambda>(first, ev).
               join ''\<newline>\<newline>''
                 (map (\<lambda>(i, ex). formatExample (names_of_example gen g i) ex)
                      (enumerate first (examples ev))))
            (zip (example_offsets j evs) evs),
        generator_state gen g (5 * (j + sum_list (map (\<lambda>ev. length (examples ev)) evs))))"
proof (induction evs arbitrary: j)
  case Nil
  then show ?case by simp
next
  case (Cons ev evs)
  from Cons[of "j + length (examples ev)"] show ?case
    by (simp add: map_examples_generated add.assoc)
qed

text \<open>
  C7. With five plain names, rendering an example replaces every occurrence of each of
  the placeholders \<^verbatim>\<open>{{user1}}\<close> to \<^verbatim>\<open>{{user5}}\<close> in the context, the message strings and the
  outcome by the name of that placeholder, and changes nothing else: the substitution
  maps a text around an occurrence of placeholder \<open>k\<close> to the substituted text before it,
  the name \<open>k\<close> and the substituted text after it; it leaves a text without placeholders
  as it is; and it is the one-pass replacement of all placeholders. Rendering is a total
  function, whatever number of placeholders the example uses.
\<close>

theorem formatExample_replaces_every_occurrence:
  assumes "length names = 5" and "list_all plain_name names"
  shows "formatExample names example = render_with (forEach_replace 0 names) example
       \<and> (\<forall>k a b. k < 5 \<longrightarrow>
            forEach_replace 0 names (a @ placeholder k @ b)
              = forEach_replace 0 names a @ names ! k @ forEach_replace 0 names b)
       \<and> (\<forall>s. (\<forall>k<5. \<not> sublist (placeholder k) s) \<longrightarrow> forEach_replace 0 names s = s)
       \<and> (\<forall>s. forEach_replace 0 names s = substitute_all (bindings_from 0 names) s)"
proof (intro conjI allI impI)
  show "formatExample names example = render_with (forEach_replace 0 names) example"
    by (rule formatExample_render)
next
  fix k a b assume "k < (5::nat)"
  then show "forEach_replace 0 names (a @ placeholder k @ b)
              = forEach_replace 0 names a @ names ! k @ forEach_replace 0 names b"
    using assms by (simp add: forEach_replace_simultaneous substitute_all_placeholder)
next
  fix s assume "\<forall>k<5. \<not> sublist (placeholder k) s"
  then show "forEach_replace 0 names s = s"
    using assms(1) by (intro forEach_replace_absent) simp
next
  fix s show "forEach_replace 0 names s = substitute_all (bindings_from 0 names) s"
    using assms by (simp add: forEach_replace_simultaneous)
qed

theorem formatExample_replaces_every_occurrence_witness:
  "formatExample names0 example0
     = ''Context:\<newline>Alice and Bob meet; Alice knows Carol\<newline>\<newline>Messages:\<newline>Alice: Hi Bob, Bob!\<newline>Bob: Hello Alice (WAIT)\<newline>\<newline>Outcome:\<newline>Alice greeted Bob''"
proof -
  have n: "length names0 = 5" "list_all plain_name names0"
    by (simp_all add: names0_def plain_name_def)
  note all = formatExample_replaces_every_occurrence[OF n, of example0]
  from all have "forEach_replace 0 names0 = substitute_all (bindings_from 0 names0)"
    by (intro ext) blast
  with all have "formatExample names0 example0
      = render_with (substitute_all (bindings_from 0 names0)) example0"
    by simp
  also have "\<dots> = ''Context:\<newline>Alice and Bob meet; Alice knows Carol\<newline>\<newline>Messages:\<newline>Alice: Hi Bob, Bob!\<newline>Bob: Hello Alice (WAIT)\<newline>\<newline>Outcome:\<newline>Alice greeted Bob''"
    by code_simp
  finally show ?thesis .
qed

text \<open>
  C6. Every example is rendered with five names of its own, used for its context, for
  each of its message strings and for its outcome alike: example number \<open>j\<close>, counting
  through the examples of all evaluators in order from 0, gets the names returned by the
  generator's calls \<open>5j\<close> to \<open>5j + 4\<close>, so no call's name is used for two examples, and
  the generator is called exactly five times per example.
\<close>

theorem formatEvaluatorExamples_names_per_example:
  "formatEvaluatorExamples gen evaluators g
     = (join ''\<newline>\<newline>''
          (map (\<lambda>(first, evaluator).
                  join ''\<newline>\<newline>''
                    (map (\<lambda>(j, example).
                            render_with (forEach_replace 0 (names_of_example gen g j)) example)
                         (enumerate first (examples evaluator))))
               (zip (example_offsets 0 evaluators) evaluators)),
        generator_state gen g (5 * sum_list (map (\<lambda>evaluator. length (examples evaluator)) evaluators)))"
  using map_evaluators_generated[of gen evaluators g 0]
  by (simp add: formatEvaluatorExamples_def generator_state_def formatExample_render)

theorem formatEvaluatorExamples_names_per_example_witness:
  "formatEvaluatorExamples roster_generator evaluators0 0
     = (''Context:\<newline>Alice met Bob\<newline>\<newline>Messages:\<newline>\<newline>\<newline>Outcome:\<newline>Alice\<newline>\<newline>Context:\<newline>Frank met Grace\<newline>\<newline>Messages:\<newline>\<newline>\<newline>Outcome:\<newline>Frank\<newline>\<newline>\<newline>\<newline>Context:\<newline>Kate met Liam\<newline>\<newline>Messages:\<newline>\<newline>\<newline>Outcome:\<newline>Kate'', 15)"
proof -
  have "(join ''\<newline>\<newline>''
          (map (\<lambda>(first, evaluator).
                  join ''\<newline>\<newline>''
                    (map (\<lambda>(j, example).
                            render_with (forEach_replace 0 (names_of_example roster_generator 0 j)) example)
                         (enumerate first (examples evaluator))))
               (zip (example_offsets 0 evaluators0) evaluators0)),
        generator_state roster_generator 0 (5 * sum_list (map (\<lambda>evaluator. length (examples evaluator)) evaluators0)))
     = (''Context:\<newline>Alice met Bob\<newline>\<newline>Messages:\<newline>\<newline>\<newline>Outcome:\<newline>Alice\<newline>\<newline>Context:\<newline>Frank met Grace\<newline>\<newline>Messages:\<newline>\<newline>\<newline>Outcome:\<newline>Frank\<newline>\<newline>\<newline>\<newline>Context:\<newline>Kate met Liam\<newline>\<newline>Messages:\<newline>\<newline>\<newline>Outcome:\<newline>Kate'', 15)"
    by code_simp
  with formatEvaluatorExamples_names_per_example[of roster_generator evaluators0 0] show ?thesis by simp
qed

end
